theory Spec2Isabelle
  imports Complex_Main "HOL-Library.Word" "HOL-Library.Multiset"
begin

section \<open>Island genetic algorithm for the 0/1 knapsack problem\<close>

text \<open>
  The development follows \<^verbatim>\<open>island_genetic_algorithm.py\<close>: the genome codec
  (\<^verbatim>\<open>get_genome_sequence\<close>, \<^verbatim>\<open>get_genome_value\<close>), the fitness function
  \<^verbatim>\<open>fitness_func\<close> and the method \<^verbatim>\<open>IslandGeneticAlgorithm.driver\<close>.
  Python integers are \<open>int\<close>. The entries of a numpy array of integers are 64-bit
  machine integers, \<open>int64\<close>: arithmetic on them wraps around silently, and \<open>sint\<close>
  reads an entry as the integer it stands for. Exceptions are values of type
  \<open>error\<close>, and a function that may raise returns \<open>error + 'a\<close>.
\<close>

subsection \<open>Errors and machine integers\<close>

type_synonym int64 = "64 word"

text \<open>The range of \<open>int64\<close>: the integers from \<open>-2^63\<close> up to \<open>2^63 - 1\<close>.\<close>

definition in_int64 :: "int \<Rightarrow> bool" where
  "in_int64 x = (- (2 ^ 63) \<le> x \<and> x < 2 ^ 63)"

datatype error = ValueError | IndexError

text \<open>A list comprehension whose element expression may raise stops at the first failure.\<close>

fun traverse :: "('a \<Rightarrow> error + 'b) \<Rightarrow> 'a list \<Rightarrow> error + 'b list" where
  "traverse f [] = Inr []"
| "traverse f (x # xs) =
     (case f x of
        Inl e \<Rightarrow> Inl e
      | Inr y \<Rightarrow> (case traverse f xs of Inl e \<Rightarrow> Inl e | Inr ys \<Rightarrow> Inr (y # ys)))"

subsection \<open>Strings of digits\<close>

text \<open>
  \<open>bin_digits n\<close> is Python's \<^verbatim>\<open>bin(n)[2:]\<close> for \<open>n \<ge> 0\<close>, and \<open>str_int\<close> is
  \<^verbatim>\<open>str\<close> on an integer.
\<close>

definition digit_char :: "nat \<Rightarrow> char" where
  "digit_char d = char_of (48 + d)"

fun bin_digits :: "nat \<Rightarrow> string" where
  "bin_digits n =
     (if n < 2 then [digit_char n] else bin_digits (n div 2) @ [digit_char (n mod 2)])"

fun str_nat :: "nat \<Rightarrow> string" where
  "str_nat n =
     (if n < 10 then [digit_char n] else str_nat (n div 10) @ [digit_char (n mod 10)])"

definition str_int :: "int \<Rightarrow> string" where
  "str_int i = (if i < 0 then CHR ''-'' # str_nat (nat (- i)) else str_nat (nat i))"

text \<open>\<^verbatim>\<open>s.zfill(w)\<close> on a string without a sign.\<close>

definition zfill :: "string \<Rightarrow> int \<Rightarrow> string" where
  "zfill s w = replicate (nat w - length s) (CHR ''0'') @ s"

text \<open>
  \<^verbatim>\<open>numpy.binary_repr(num, width)\<close> as numpy 1.x defines it (the release line that
  still has \<^verbatim>\<open>np.NINF\<close> and \<^verbatim>\<open>np.int\<close>, which the sources use), called with a width.
  A width smaller than the number of digits only issues a \<^verbatim>\<open>DeprecationWarning\<close>: the
  result is \<^verbatim>\<open>binary.zfill(max(binwidth, width))\<close>, the digits in full. The docstring of
  \<^verbatim>\<open>get_genome_sequence\<close> records this with \<^verbatim>\<open>get_genome_sequence(7,2)\<close> giving
  \<^verbatim>\<open>array([1, 1, 1])\<close>. A negative number is written in two's complement.
\<close>

definition binary_repr :: "int \<Rightarrow> int \<Rightarrow> string" where
  "binary_repr num width =
     (if num = 0 then replicate (nat (if width = 0 then 1 else width)) (CHR ''0'')
      else if num > 0 then
        (let binary = bin_digits (nat num);
             binwidth = int (length binary);
             outwidth = max binwidth width
         in zfill binary outwidth)
      else
        (let poswidth0 = length (bin_digits (nat (- num)));
             poswidth = (if (2::int) ^ (poswidth0 - 1) = - num then poswidth0 - 1 else poswidth0);
             twocomp = 2 ^ (poswidth + 1) + num;
             binary = bin_digits (nat twocomp);
             binwidth = int (length binary);
             outwidth = max binwidth width
         in replicate (nat (outwidth - binwidth)) (CHR ''1'') @ binary))"

text \<open>\<^verbatim>\<open>int(x)\<close> on a one-character string: a decimal digit, or \<^verbatim>\<open>ValueError\<close>.\<close>

definition int_of_digit :: "char \<Rightarrow> error + int" where
  "int_of_digit c =
     (if 48 \<le> (of_char c :: nat) \<and> (of_char c :: nat) \<le> 57
      then Inr (int (of_char c) - 48) else Inl ValueError)"

text \<open>
  \<^verbatim>\<open>int(s, 2)\<close> on the strings \<^verbatim>\<open>get_genome_value\<close> builds: the prefix \<^verbatim>\<open>0b\<close>
  followed by characters that \<^verbatim>\<open>str\<close> of an integer produces (decimal digits and
  the minus sign). Python accepts such a string when at least one character follows the
  prefix and all of them are binary digits.
\<close>

definition is_bin_char :: "char \<Rightarrow> bool" where
  "is_bin_char c = (c = CHR ''0'' \<or> c = CHR ''1'')"

definition int_base2 :: "string \<Rightarrow> error + int" where
  "int_base2 s =
     (let d = (if take 2 s = ''0b'' then drop 2 s else s)
      in if d \<noteq> [] \<and> list_all is_bin_char d
         then Inr (foldl (\<lambda>a c. 2 * a + (if c = CHR ''1'' then 1 else 0)) 0 d)
         else Inl ValueError)"

subsection \<open>Genome codec\<close>

definition get_genome_sequence :: "int \<Rightarrow> int \<Rightarrow> error + int list" where
  "get_genome_sequence code padding = traverse int_of_digit (binary_repr code padding)"

definition get_genome_value :: "int list \<Rightarrow> error + int" where
  "get_genome_value genome = int_base2 (''0b'' @ concat (map str_int genome))"

subsection \<open>Problem instance and fitness\<close>

text \<open>
  The class \<^verbatim>\<open>Knapsack\<close> of \<^verbatim>\<open>gen_data.py\<close>. The fields \<^verbatim>\<open>n\<close> and \<^verbatim>\<open>values\<close>
  are called \<open>n_items\<close> and \<open>vals\<close> here. The two vectors are arrays of \<open>int64\<close>,
  as \<^verbatim>\<open>to_numpy\<close> makes them with \<^verbatim>\<open>dtype=np.int\<close>; \<open>n_items\<close> and the capacity
  are Python integers.
\<close>

record knapsack =
  n_items :: int
  weights :: "int64 list"
  vals :: "int64 list"
  capacity :: int

text \<open>The fitness is a profit or \<^verbatim>\<open>np.NINF\<close>, which compares below every number.\<close>

datatype fitness = NINF | Profit int

fun fit_less :: "fitness \<Rightarrow> fitness \<Rightarrow> bool" where
  "fit_less NINF NINF = False"
| "fit_less NINF (Profit b) = True"
| "fit_less (Profit a) NINF = False"
| "fit_less (Profit a) (Profit b) = (a < b)"

definition fit_le :: "fitness \<Rightarrow> fitness \<Rightarrow> bool" where
  "fit_le a b = (\<not> fit_less b a)"

text \<open>
  \<^verbatim>\<open>np.dot\<close> of the genome array with a vector of the instance: the shapes must agree.
  The genome array holds the digits as \<open>int64\<close> too, and the products and their sum
  are computed in \<open>int64\<close>, so they wrap around modulo \<open>2^64\<close>. The result is read
  back as an integer.
\<close>

definition np_dot :: "int list \<Rightarrow> int64 list \<Rightarrow> error + int" where
  "np_dot xs ys =
     (if length xs = length ys
      then Inr (sint (sum_list (map2 (\<lambda>x y. word_of_int x * y) xs ys)))
      else Inl ValueError)"

definition fitness_func :: "int \<Rightarrow> knapsack \<Rightarrow> error + fitness" where
  "fitness_func code knapsack_obj =
     (case get_genome_sequence code (n_items knapsack_obj) of
        Inl e \<Rightarrow> Inl e
      | Inr genome \<Rightarrow>
          (case np_dot genome (weights knapsack_obj) of
             Inl e \<Rightarrow> Inl e
           | Inr w \<Rightarrow>
               if w \<le> capacity knapsack_obj
               then (case np_dot genome (vals knapsack_obj) of
                       Inl e \<Rightarrow> Inl e
                     | Inr v \<Rightarrow> Inr (Profit v))
               else Inr NINF))"

subsection \<open>Fixed-width selections\<close>

text \<open>
  \<open>low_bits w c\<close> is the \<open>w\<close> low-order bits of \<open>c\<close>, most significant first: the
  fixed-width selection vector of the data model. \<open>dot\<close> is the sum of the products
  of two index-aligned vectors.
\<close>

fun low_bits :: "nat \<Rightarrow> nat \<Rightarrow> int list" where
  "low_bits 0 c = []"
| "low_bits (Suc w) c = low_bits w (c div 2) @ [int (c mod 2)]"

definition dot :: "int list \<Rightarrow> int list \<Rightarrow> int" where
  "dot xs ys = (\<Sum>i < length xs. xs ! i * ys ! i)"

text \<open>The digits of a natural number as numbers, most significant first.\<close>

fun bin_vals :: "nat \<Rightarrow> int list" where
  "bin_vals n = (if n < 2 then [int n] else bin_vals (n div 2) @ [int (n mod 2)])"

definition bin_value :: "int list \<Rightarrow> int" where
  "bin_value bs = foldl (\<lambda>a b. 2 * a + b) 0 bs"


subsection \<open>The inherited operators\<close>

text \<open>
  \<^verbatim>\<open>IslandGeneticAlgorithm\<close> inherits \<^verbatim>\<open>init_population\<close>, \<^verbatim>\<open>selection\<close>,
  \<^verbatim>\<open>crossover\<close> and \<^verbatim>\<open>mutation\<close> from \<^verbatim>\<open>GeneticAlgorithm\<close>, and its
  constructor stores the keyword arguments (\<^verbatim>\<open>cycle\<close>, \<^verbatim>\<open>fitness_func\<close>, ...) as
  attributes. The base class is in another module, so the object is a record of its
  attributes and methods, which the driver takes as given. The operators draw random
  numbers: each one takes the state \<open>'r\<close> of the random source and returns the new
  one. A \<open>world\<close> pairs that state with the log of the operator calls made so far,
  so that a statement can say whether an operator was invoked. The operators are taken
  to return normally. \<^verbatim>\<open>crossover_mutation\<close> returns a numpy array, which the driver
  stacks onto an array of integers: the result of \<open>ga_mutation\<close> is an array of
  \<open>int64\<close>. The selection fraction is a Python float, that is, a rational number.
\<close>

datatype call = InitPopulation | Selection | Crossover | Mutation

record 'r genetic_algorithm =
  ga_cycle :: int
  ga_fitness_func :: "int \<Rightarrow> error + fitness"
  ga_init_population :: "'r \<Rightarrow> int list \<times> 'r"
  ga_selection :: "int list \<Rightarrow> rat \<Rightarrow> 'r \<Rightarrow> int list \<times> 'r"
  ga_crossover :: "int list \<Rightarrow> 'r \<Rightarrow> int list \<times> 'r"
  ga_mutation :: "int list \<Rightarrow> 'r \<Rightarrow> int64 list \<times> 'r"

type_synonym 'r world = "'r \<times> call list"

definition init_population :: "'r genetic_algorithm \<Rightarrow> 'r world \<Rightarrow> int list \<times> 'r world" where
  "init_population ga s =
     (case ga_init_population ga (fst s) of
        (population, r) \<Rightarrow> (population, (r, snd s @ [InitPopulation])))"

definition selection ::
  "'r genetic_algorithm \<Rightarrow> int list \<Rightarrow> rat \<Rightarrow> 'r world \<Rightarrow> int list \<times> 'r world" where
  "selection ga population selection_percentage s =
     (case ga_selection ga population selection_percentage (fst s) of
        (survivors, r) \<Rightarrow> (survivors, (r, snd s @ [Selection])))"

definition crossover :: "'r genetic_algorithm \<Rightarrow> int list \<Rightarrow> 'r world \<Rightarrow> int list \<times> 'r world" where
  "crossover ga population s =
     (case ga_crossover ga population (fst s) of
        (offspring, r) \<Rightarrow> (offspring, (r, snd s @ [Crossover])))"

definition mutation ::
  "'r genetic_algorithm \<Rightarrow> int list \<Rightarrow> 'r world \<Rightarrow> int64 list \<times> 'r world" where
  "mutation ga population s =
     (case ga_mutation ga population (fst s) of
        (mutated, r) \<Rightarrow> (mutated, (r, snd s @ [Mutation])))"

subsection \<open>Python's \<^verbatim>\<open>max\<close> with a key, and \<^verbatim>\<open>np.unique\<close>\<close>

text \<open>
  \<^verbatim>\<open>max(xs, key=f)\<close> evaluates the key of every element in order and keeps the first
  element whose key is greatest; it raises \<^verbatim>\<open>ValueError\<close> on an empty sequence, and an
  error of the key function propagates.
\<close>

fun max_by :: "('a \<Rightarrow> error + fitness) \<Rightarrow> 'a \<Rightarrow> fitness \<Rightarrow> 'a list \<Rightarrow> error + 'a" where
  "max_by key maxitem maxval [] = Inr maxitem"
| "max_by key maxitem maxval (item # rest) =
     (case key item of
        Inl e \<Rightarrow> Inl e
      | Inr val \<Rightarrow>
          if fit_less maxval val then max_by key item val rest
          else max_by key maxitem maxval rest)"

definition py_max :: "('a \<Rightarrow> error + fitness) \<Rightarrow> 'a list \<Rightarrow> error + 'a" where
  "py_max key xs =
     (case xs of
        [] \<Rightarrow> Inl ValueError
      | item # rest \<Rightarrow>
          (case key item of Inl e \<Rightarrow> Inl e | Inr val \<Rightarrow> max_by key item val rest))"

text \<open>\<^verbatim>\<open>np.unique\<close> on an array of \<open>int64\<close>: the distinct entries, in ascending order.\<close>

definition np_unique :: "int64 list \<Rightarrow> int64 list" where
  "np_unique xs = sort_key sint (remdups xs)"

text \<open>
  The test \<^verbatim>\<open>selection_percentage * len(population) <= 1\<close> in double precision. The
  length is converted exactly (it is below \<open>2^53\<close>) and the product is rounded to the
  nearest double, ties to even. The doubles next to 1 are \<open>1 - 2^-53\<close> and
  \<open>1 + 2^-52\<close>, so the rounded product is at most 1 exactly when the exact product is
  at most \<open>1 + 2^-53\<close>.
\<close>

definition float_le_one :: "rat \<Rightarrow> nat \<Rightarrow> bool" where
  "float_le_one selection_percentage len = (selection_percentage * of_nat len \<le> 1 + 1 / 2 ^ 53)"

subsection \<open>The island driver\<close>

definition crossover_mutation ::
  "'r genetic_algorithm \<Rightarrow> int list \<Rightarrow> 'r world \<Rightarrow> int64 list \<times> 'r world" where
  "crossover_mutation ga population s =
     (case crossover ga population s of
        (crossed, s1) \<Rightarrow> mutation ga crossed s1)"

text \<open>
  The \<open>k_parallel\<close> tasks submitted to the executor, each on the same survivors. The
  model runs them one after the other in the order of submission; the driver stacks
  their results in the order of completion and then applies \<^verbatim>\<open>np.unique\<close>, whose
  result does not depend on that order (lemma \<open>np_unique_concat_perm\<close>).
\<close>

fun islands ::
  "'r genetic_algorithm \<Rightarrow> nat \<Rightarrow> int list \<Rightarrow> 'r world \<Rightarrow> int64 list list \<times> 'r world" where
  "islands ga 0 population s = ([], s)"
| "islands ga (Suc k) population s =
     (case crossover_mutation ga population s of
        (out, s1) \<Rightarrow> (case islands ga k population s1 of (outs, s2) \<Rightarrow> (out # outs, s2)))"

text \<open>
  One pass through the body of the \<^verbatim>\<open>while\<close> loop after the guard: selection, the
  islands, and the merge. The merged array is the next population; its entries are read
  as integers.
\<close>

definition generation ::
  "'r genetic_algorithm \<Rightarrow> rat \<Rightarrow> int \<Rightarrow> int list \<Rightarrow> 'r world \<Rightarrow> int list \<times> 'r world" where
  "generation ga selection_percentage k_parallel population s =
     (case selection ga population selection_percentage s of
        (survivors, s1) \<Rightarrow>
          (case islands ga (nat k_parallel) survivors s1 of
             (outs, s2) \<Rightarrow> (map sint (np_unique (concat outs)), s2)))"

text \<open>
  The \<^verbatim>\<open>while len(population) > 1\<close> loop of one cycle. The loop need not end, so
  the result is an option: \<open>None\<close> when it runs forever.
\<close>

partial_function (option) evolving ::
  "'r genetic_algorithm \<Rightarrow> rat \<Rightarrow> int \<Rightarrow> int list \<Rightarrow> 'r world
     \<Rightarrow> (error + int list \<times> 'r world) option" where
  "evolving ga selection_percentage k_parallel population s =
     (if 1 < length population then
        if float_le_one selection_percentage (length population) then
          (case py_max (ga_fitness_func ga) population of
             Inl e \<Rightarrow> Some (Inl e)
           | Inr best \<Rightarrow> Some (Inr ([best], s)))
        else
          (case generation ga selection_percentage k_parallel population s of
             (merged, s') \<Rightarrow> evolving ga selection_percentage k_parallel merged s')
      else Some (Inr (population, s)))"

text \<open>
  After the loop, \<^verbatim>\<open>population[0]\<close> is recorded as the winner of the cycle; on an
  empty population the index raises.
\<close>

definition cycle_done ::
  "(error + int list \<times> 'r world) option \<Rightarrow> (error + int \<times> 'r world) option" where
  "cycle_done res =
     (case res of
        None \<Rightarrow> None
      | Some (Inl e) \<Rightarrow> Some (Inl e)
      | Some (Inr (final, s)) \<Rightarrow>
          (case final of
             [] \<Rightarrow> Some (Inl IndexError)
           | winner # _ \<Rightarrow> Some (Inr (winner, s))))"

text \<open>One cycle: a fresh population, the loop, and the winner.\<close>

definition run_cycle ::
  "'r genetic_algorithm \<Rightarrow> rat \<Rightarrow> int \<Rightarrow> 'r world \<Rightarrow> (error + int \<times> 'r world) option" where
  "run_cycle ga selection_percentage k_parallel s =
     (case init_population ga s of
        (population, s1) \<Rightarrow>
          cycle_done (evolving ga selection_percentage k_parallel population s1))"

text \<open>The \<^verbatim>\<open>for\<close> loop over \<^verbatim>\<open>range(self.cycle)\<close>, appending each winner.\<close>

fun cycles ::
  "'r genetic_algorithm \<Rightarrow> rat \<Rightarrow> int \<Rightarrow> nat \<Rightarrow> int list \<Rightarrow> 'r world
     \<Rightarrow> (error + int list \<times> 'r world) option" where
  "cycles ga selection_percentage k_parallel 0 winner_genomes s = Some (Inr (winner_genomes, s))"
| "cycles ga selection_percentage k_parallel (Suc c) winner_genomes s =
     (case run_cycle ga selection_percentage k_parallel s of
        None \<Rightarrow> None
      | Some (Inl e) \<Rightarrow> Some (Inl e)
      | Some (Inr (winner, s1)) \<Rightarrow>
          cycles ga selection_percentage k_parallel c (winner_genomes @ [winner]) s1)"

definition driver ::
  "'r genetic_algorithm \<Rightarrow> rat \<Rightarrow> int \<Rightarrow> 'r world \<Rightarrow> (error + int \<times> 'r world) option" where
  "driver ga selection_percentage k_parallel s =
     (case cycles ga selection_percentage k_parallel (nat (ga_cycle ga)) [] s of
        None \<Rightarrow> None
      | Some (Inl e) \<Rightarrow> Some (Inl e)
      | Some (Inr (winner_genomes, s1)) \<Rightarrow>
          (case py_max (ga_fitness_func ga) winner_genomes of
             Inl e \<Rightarrow> Some (Inl e)
           | Inr best_genome \<Rightarrow> Some (Inr (best_genome, s1))))"

subsection \<open>Operators after the specification\<close>

text \<open>
  The statements about the driver hold for all operators. To run the driver on an
  input, the operators of the base class are written after the specification.
\<close>

text \<open>
  Modelled from the spec: the fitness of section 4.2, used to rank genomes in the
  selection below. The total weight of the fixed-width selection is compared with the
  capacity; the result is the total value, or negative infinity.
\<close>

definition spec_fitness :: "knapsack \<Rightarrow> int \<Rightarrow> fitness" where
  "spec_fitness ks g =
     (if dot (low_bits (nat (n_items ks)) (nat g)) (map sint (weights ks)) \<le> capacity ks
      then Profit (dot (low_bits (nat (n_items ks)) (nat g)) (map sint (vals ks)))
      else NINF)"

text \<open>
  Modelled from the spec: selection, which \<^verbatim>\<open>GeneticAlgorithm\<close> defines in a module
  that is not among the sources. Section 4.3: rank the genomes descending by fitness and
  retain the top \<open>ceil(percentage * population_size)\<close> genomes, at least 1. Genomes of
  equal fitness keep their order.
\<close>

fun insert_ranked :: "(int \<Rightarrow> fitness) \<Rightarrow> int \<Rightarrow> int list \<Rightarrow> int list" where
  "insert_ranked rank g [] = [g]"
| "insert_ranked rank g (h # hs) =
     (if fit_less (rank h) (rank g) then g # h # hs else h # insert_ranked rank g hs)"

definition ranked :: "(int \<Rightarrow> fitness) \<Rightarrow> int list \<Rightarrow> int list" where
  "ranked rank population = foldl (\<lambda>acc g. insert_ranked rank g acc) [] population"

definition spec_selection :: "(int \<Rightarrow> fitness) \<Rightarrow> int list \<Rightarrow> rat \<Rightarrow> int list" where
  "spec_selection rank population percentage =
     take (max 1 (nat \<lceil>percentage * of_nat (length population)\<rceil>)) (ranked rank population)"

text \<open>
  Modelled from the spec: crossover and mutation, also of the base class. Section 4.3
  leaves the pairing of the parents, the choice per bit position and the flipped bits to
  chance, and lets parents be drawn with replacement. \<open>spec_crossover\<close> is the outcome
  in which every survivor is paired with itself, so that each offspring is its parent,
  one offspring per survivor; \<open>spec_mutation\<close> is the outcome in which no bit is
  flipped, with the offspring stored in an array of \<open>int64\<close>.
\<close>

definition spec_crossover :: "int list \<Rightarrow> int list" where
  "spec_crossover survivors = survivors"

definition spec_mutation :: "int list \<Rightarrow> int64 list" where
  "spec_mutation offspring = map word_of_int offspring"

text \<open>
  Modelled from the spec: initialization. The random source is the list of the
  populations still to be drawn: \<open>scripted_population\<close> hands out the next one.
\<close>

definition scripted_population :: "int list list \<Rightarrow> int list \<times> int list list" where
  "scripted_population r = (case r of [] \<Rightarrow> ([], []) | population # rest \<Rightarrow> (population, rest))"

definition spec_ga :: "int \<Rightarrow> knapsack \<Rightarrow> (int list list) genetic_algorithm" where
  "spec_ga cycle_count ks =
     \<lparr>ga_cycle = cycle_count,
      ga_fitness_func = (\<lambda>g. fitness_func g ks),
      ga_init_population = scripted_population,
      ga_selection = (\<lambda>population percentage r.
         (spec_selection (spec_fitness ks) population percentage, r)),
      ga_crossover = (\<lambda>population r. (spec_crossover population, r)),
      ga_mutation = (\<lambda>population r. (spec_mutation population, r))\<rparr>"

text \<open>The instance of the end-to-end scenario of the specification.\<close>

definition ks4 :: knapsack where
  "ks4 = \<lparr>n_items = 4, weights = [2, 3, 4, 5], vals = [3, 4, 5, 6], capacity = 5\<rparr>"

section \<open>Properties of the codec and of the fitness function\<close>

declare bin_digits.simps [simp del] str_nat.simps [simp del] bin_vals.simps [simp del]

lemma traverse_append:
  "traverse f (xs @ ys) =
     (case traverse f xs of
        Inl e \<Rightarrow> Inl e
      | Inr a \<Rightarrow> (case traverse f ys of Inl e \<Rightarrow> Inl e | Inr b \<Rightarrow> Inr (a @ b)))"
  by (induction xs) (auto split: sum.splits)

lemma traverse_replicate:
  "f x = Inr y \<Longrightarrow> traverse f (replicate k x) = Inr (replicate k y)"
  by (induction k) auto

lemma traverse_zeros:
  "traverse int_of_digit (replicate k (CHR ''0'')) = Inr (replicate k 0)"
  by (induction k) (auto simp: int_of_digit_def)

lemma int_of_digit_bit: "d < 2 \<Longrightarrow> int_of_digit (digit_char d) = Inr (int d)"
proof -
  assume "d < 2"
  then have "d = 0 \<or> d = 1" by auto
  then show ?thesis by (auto simp: int_of_digit_def digit_char_def)
qed

lemma traverse_bin_digits: "traverse int_of_digit (bin_digits n) = Inr (bin_vals n)"
proof (induction n rule: bin_digits.induct)
  case (1 n)
  show ?case
  proof (cases "n < 2")
    case True
    then show ?thesis
      by (subst bin_digits.simps, subst bin_vals.simps) (simp add: int_of_digit_bit)
  next
    case False
    with 1 show ?thesis
      by (subst bin_digits.simps, subst bin_vals.simps)
         (simp add: traverse_append int_of_digit_bit)
  qed
qed

lemma length_bin_digits: "length (bin_digits n) = length (bin_vals n)"
proof (induction n rule: bin_digits.induct)
  case (1 n)
  then show ?case
    by (subst bin_digits.simps, subst bin_vals.simps) simp
qed

lemma low_bits_zero: "low_bits w 0 = replicate w 0"
  by (induction w) (simp_all add: replicate_append_same)

lemma length_low_bits: "length (low_bits w c) = w"
  by (induction w arbitrary: c) simp_all

lemma length_bin_vals_le: "c < 2 ^ w \<Longrightarrow> 0 < w \<Longrightarrow> length (bin_vals c) \<le> w"
proof (induction w arbitrary: c)
  case 0
  then show ?case by simp
next
  case (Suc w)
  show ?case
  proof (cases "c < 2")
    case True
    then show ?thesis by (subst bin_vals.simps) simp
  next
    case False
    then have "0 < w" using Suc.prems by (cases w) auto
    moreover have "c div 2 < 2 ^ w" using Suc.prems by auto
    ultimately have "length (bin_vals (c div 2)) \<le> w" using Suc.IH by blast
    with False show ?thesis by (subst bin_vals.simps) simp
  qed
qed

lemma pad_bin_vals:
  "c < 2 ^ w \<Longrightarrow> 0 < w \<Longrightarrow> replicate (w - length (bin_vals c)) 0 @ bin_vals c = low_bits w c"
proof (induction w arbitrary: c)
  case 0
  then show ?case by simp
next
  case (Suc w)
  show ?case
  proof (cases "c < 2")
    case True
    then have "c div 2 = 0" by simp
    with True show ?thesis
      by (subst (1 2) bin_vals.simps) (simp add: low_bits_zero)
  next
    case False
    then have w: "0 < w" using Suc.prems by (cases w) auto
    have d: "c div 2 < 2 ^ w" using Suc.prems by auto
    have len: "length (bin_vals (c div 2)) \<le> w" using length_bin_vals_le [OF d w] .
    have "replicate (w - length (bin_vals (c div 2))) 0 @ bin_vals (c div 2) = low_bits w (c div 2)"
      using Suc.IH [OF d w] .
    with False len show ?thesis
      by (subst (1 2) bin_vals.simps) (simp add: Suc_diff_le)
  qed
qed

lemma get_genome_sequence_in_range:
  assumes "0 \<le> code" "code < 2 ^ nat n" "1 \<le> n"
  shows "get_genome_sequence code n = Inr (low_bits (nat n) (nat code))"
proof (cases "code = 0")
  case True
  with assms show ?thesis
    by (simp add: get_genome_sequence_def binary_repr_def traverse_zeros low_bits_zero)
next
  case False
  let ?c = "nat code" and ?w = "nat n"
  have c: "?c < 2 ^ ?w" using assms by (simp add: nat_less_iff)
  have w: "0 < ?w" using assms by simp
  have len: "length (bin_vals ?c) \<le> ?w" using length_bin_vals_le [OF c w] .
  have "get_genome_sequence code n
      = traverse int_of_digit (replicate (?w - length (bin_vals ?c)) (CHR ''0'') @ bin_digits ?c)"
    using False assms len
    by (simp add: get_genome_sequence_def binary_repr_def zfill_def Let_def length_bin_digits max_def)
  also have "\<dots> = Inr (replicate (?w - length (bin_vals ?c)) 0 @ bin_vals ?c)"
    by (simp add: traverse_append traverse_zeros traverse_bin_digits)
  finally show ?thesis using pad_bin_vals [OF c w] by simp
qed


lemma digit_char_0: "digit_char 0 = CHR ''0''"
  by code_simp

lemma digit_char_Suc0: "digit_char (Suc 0) = CHR ''1''"
  by code_simp

lemma str_int_bit: "b = 0 \<or> b = 1 \<Longrightarrow> str_int b = [digit_char (nat b)]"
  by (auto simp: str_int_def str_nat.simps)

lemma concat_str_int_bits:
  "set bs \<subseteq> {0, 1} \<Longrightarrow> concat (map str_int bs) = map (\<lambda>b. digit_char (nat b)) bs"
  by (induction bs) (auto simp: str_int_bit)

lemma bin_chars_of_bits:
  "set bs \<subseteq> {0, 1} \<Longrightarrow> list_all is_bin_char (map (\<lambda>b. digit_char (nat b)) bs)"
  by (induction bs) (auto simp: is_bin_char_def digit_char_0 digit_char_Suc0)

lemma foldl_bin_chars:
  "set bs \<subseteq> {0, 1} \<Longrightarrow>
     foldl (\<lambda>a c. 2 * a + (if c = CHR ''1'' then 1 else 0)) a (map (\<lambda>b. digit_char (nat b)) bs)
       = foldl (\<lambda>a b. 2 * a + b) a bs"
  by (induction bs arbitrary: a) (auto simp: digit_char_0 digit_char_Suc0)

lemma get_genome_value_bits:
  assumes "bs \<noteq> []" "set bs \<subseteq> {0, 1}"
  shows "get_genome_value bs = Inr (bin_value bs)"
  using assms
  by (simp add: get_genome_value_def int_base2_def concat_str_int_bits bin_chars_of_bits
      foldl_bin_chars bin_value_def)

lemma bin_value_snoc: "bin_value (bs @ [b]) = 2 * bin_value bs + b"
  by (simp add: bin_value_def)

lemma set_low_bits: "set (low_bits w c) \<subseteq> {0, 1}"
  by (induction w arbitrary: c) auto

lemma bin_value_low_bits: "c < 2 ^ w \<Longrightarrow> bin_value (low_bits w c) = int c"
proof (induction w arbitrary: c)
  case 0
  then show ?case by (simp add: bin_value_def)
next
  case (Suc w)
  then have "c div 2 < 2 ^ w" by auto
  then have "bin_value (low_bits w (c div 2)) = int (c div 2)" by (rule Suc.IH)
  then show ?case by (simp add: bin_value_snoc) presburger
qed

lemma set_bin_vals: "set (bin_vals c) \<subseteq> {0, 1}"
proof (induction c rule: bin_vals.induct)
  case (1 n)
  then show ?case by (subst bin_vals.simps) auto
qed

lemma bin_vals_nonempty: "bin_vals c \<noteq> []"
  by (subst bin_vals.simps) simp

lemma bin_value_bin_vals: "bin_value (bin_vals c) = int c"
proof (induction c rule: bin_vals.induct)
  case (1 n)
  show ?case
  proof (cases "n < 2")
    case True
    then show ?thesis by (subst bin_vals.simps) (simp add: bin_value_def)
  next
    case False
    with 1 have "bin_value (bin_vals (n div 2)) = int (n div 2)" by simp
    with False show ?thesis by (subst bin_vals.simps) (simp add: bin_value_snoc, presburger)
  qed
qed

lemma low_bits_nth:
  "i < w \<Longrightarrow> low_bits w c ! i = int ((c div 2 ^ (w - 1 - i)) mod 2)"
proof (induction w arbitrary: c i)
  case 0
  then show ?case by simp
next
  case (Suc w)
  show ?case
  proof (cases "i < w")
    case True
    then have "low_bits w (c div 2) ! i = int ((c div 2 div 2 ^ (w - 1 - i)) mod 2)"
      by (rule Suc.IH)
    moreover have "w - i = Suc (w - 1 - i)" using True by simp
    ultimately show ?thesis using True
      by (simp add: nth_append length_low_bits div_mult2_eq)
  next
    case False
    with Suc.prems have "i = w" by simp
    then show ?thesis by (simp add: nth_append length_low_bits)
  qed
qed

lemma word_sum_products:
  "length xs = length ys \<Longrightarrow>
     sum_list (map2 (\<lambda>x y. word_of_int x * y) xs ys)
       = (word_of_int (sum_list (map2 (\<lambda>x y. x * sint y) xs ys)) :: int64)"
  by (induction xs ys rule: list_induct2) simp_all

lemma dot_sum_list:
  "length xs = length ys \<Longrightarrow> dot xs (map sint ys) = sum_list (map2 (\<lambda>x y. x * sint y) xs ys)"
proof -
  assume l: "length xs = length ys"
  let ?zs = "map2 (\<lambda>x y. x * sint y) xs ys"
  have "sum_list ?zs = (\<Sum>i = 0..<length ?zs. ?zs ! i)"
    by (rule sum_list_sum_nth)
  also have "\<dots> = (\<Sum>i < length xs. xs ! i * map sint ys ! i)"
    using l by (simp add: atLeast0LessThan)
  finally show ?thesis by (simp add: dot_def)
qed

lemma np_dot_wraps:
  "length xs = length ys \<Longrightarrow> np_dot xs ys = Inr (signed_take_bit 63 (dot xs (map sint ys)))"
  by (simp add: np_dot_def word_sum_products dot_sum_list sint_sbintrunc')

lemma np_dot_eq_dot:
  "length xs = length ys \<Longrightarrow> in_int64 (dot xs (map sint ys)) \<Longrightarrow>
     np_dot xs ys = Inr (dot xs (map sint ys))"
  by (simp add: np_dot_wraps in_int64_def signed_take_bit_int_eq_self)

lemma fitness_func_in_range:
  assumes "1 \<le> n_items ks"
    and "length (weights ks) = nat (n_items ks)"
    and "length (vals ks) = nat (n_items ks)"
    and "0 \<le> code" and "code < 2 ^ nat (n_items ks)"
    and "in_int64 (dot (low_bits (nat (n_items ks)) (nat code)) (map sint (weights ks)))"
    and "dot (low_bits (nat (n_items ks)) (nat code)) (map sint (weights ks)) \<le> capacity ks
           \<longrightarrow> in_int64 (dot (low_bits (nat (n_items ks)) (nat code)) (map sint (vals ks)))"
  shows "fitness_func code ks =
     Inr (if dot (low_bits (nat (n_items ks)) (nat code)) (map sint (weights ks)) \<le> capacity ks
          then Profit (dot (low_bits (nat (n_items ks)) (nat code)) (map sint (vals ks)))
          else NINF)"
  using assms
  by (simp add: fitness_func_def get_genome_sequence_in_range np_dot_eq_dot length_low_bits)

lemma dot_zeros: "dot (replicate k 0) ys = 0"
  by (simp add: dot_def)

lemma in_int64_0: "in_int64 0"
  by (simp add: in_int64_def)

lemma get_genome_sequence_wide:
  assumes "0 \<le> code" "0 \<le> w" "w < int (length (bin_vals (nat code)))"
  shows "get_genome_sequence code w = Inr (bin_vals (nat code))"
proof (cases "code = 0")
  case True
  with assms have "w = 0" by (simp add: bin_vals.simps)
  with True show ?thesis
    by (simp add: get_genome_sequence_def binary_repr_def bin_vals.simps int_of_digit_def)
next
  case False
  with assms show ?thesis
    by (simp add: get_genome_sequence_def binary_repr_def zfill_def Let_def length_bin_digits
        max_def traverse_bin_digits)
qed

lemma bin_vals_bound: "c < 2 ^ length (bin_vals c)"
proof (induction c rule: bin_vals.induct)
  case (1 n)
  show ?case
  proof (cases "n < 2")
    case True
    then show ?thesis by (subst bin_vals.simps) simp
  next
    case False
    with 1 have "n div 2 < 2 ^ length (bin_vals (n div 2))" by simp
    then have "n < 2 * 2 ^ length (bin_vals (n div 2))" by arith
    with False show ?thesis by (subst bin_vals.simps) simp
  qed
qed

lemma bin_vals_low_bits: "bin_vals c = low_bits (length (bin_vals c)) c"
proof -
  have "0 < length (bin_vals c)" using bin_vals_nonempty [of c] by simp
  from pad_bin_vals [OF bin_vals_bound this] show ?thesis by simp
qed

text \<open>
  C1, as stated, fails: the weight of a selection is summed in \<open>int64\<close> and wraps
  around. With two items of weight \<open>2^62\<close> and capacity 5, the selection of genome 3
  weighs \<open>2^63\<close>, which exceeds the capacity, but the sum wraps to \<open>-2^63\<close>, passes
  the test, and \<open>fitness_func\<close> returns the profit 2 and not \<open>NINF\<close>.
\<close>

theorem fitness_func_wraps_counterexample:
  "fitness_func 3
     \<lparr>n_items = 2, weights = [4611686018427387904, 4611686018427387904], vals = [1, 1],
      capacity = 5\<rparr> = Inr (Profit 2)
   \<and> \<not> dot (low_bits 2 3) (map sint [4611686018427387904, 4611686018427387904 :: int64]) \<le> 5"
proof -
  have b: "low_bits 2 3 = [1, 1]" by code_simp
  have g: "get_genome_sequence 3 2 = Inr [1, 1]" by code_simp
  have "\<not> dot [1, 1] (map sint [4611686018427387904, 4611686018427387904 :: int64]) \<le> 5"
    by (simp add: dot_def lessThan_nat_numeral lessThan_Suc)
  moreover have "fitness_func 3
     \<lparr>n_items = 2, weights = [4611686018427387904, 4611686018427387904], vals = [1, 1],
      capacity = 5\<rparr> = Inr (Profit 2)"
    by (simp add: fitness_func_def g np_dot_def)
  ultimately show ?thesis by (simp add: b)
qed

text \<open>
  C1, amended. For a problem instance with \<open>n \<ge> 1\<close> items whose weight and value
  vectors have length \<open>n\<close>, and a genome \<open>code\<close> in \<open>[0, 2^n - 1]\<close>: when the total
  weight of the \<open>n\<close>-bit selection of \<open>code\<close> lies in the range of \<open>int64\<close>, and its
  total value does too in case the weight is at most the capacity, \<open>fitness_func\<close>
  raises no error and returns the total value when the total weight is at most the
  capacity, and \<open>NINF\<close> otherwise.
\<close>

theorem fitness_func_value:
  assumes "1 \<le> n_items ks"
    and "length (weights ks) = nat (n_items ks)"
    and "length (vals ks) = nat (n_items ks)"
    and "0 \<le> code" and "code \<le> 2 ^ nat (n_items ks) - 1"
    and "in_int64 (dot (low_bits (nat (n_items ks)) (nat code)) (map sint (weights ks)))"
    and "dot (low_bits (nat (n_items ks)) (nat code)) (map sint (weights ks)) \<le> capacity ks
           \<longrightarrow> in_int64 (dot (low_bits (nat (n_items ks)) (nat code)) (map sint (vals ks)))"
  shows "fitness_func code ks =
     Inr (if dot (low_bits (nat (n_items ks)) (nat code)) (map sint (weights ks)) \<le> capacity ks
          then Profit (dot (low_bits (nat (n_items ks)) (nat code)) (map sint (vals ks)))
          else NINF)"
  using assms by (intro fitness_func_in_range) simp_all

theorem fitness_func_value_witness:
  "fitness_func 12 \<lparr>n_items = 4, weights = [2, 3, 4, 5], vals = [3, 4, 5, 6], capacity = 5\<rparr>
     = Inr (Profit 7)
   \<and> fitness_func 3 \<lparr>n_items = 4, weights = [2, 3, 4, 5], vals = [3, 4, 5, 6], capacity = 5\<rparr>
     = Inr NINF"
proof -
  let ?ks = "\<lparr>n_items = 4, weights = [2, 3, 4, 5], vals = [3, 4, 5, 6], capacity = 5\<rparr>"
  have b12: "low_bits 4 12 = [1, 1, 0, 0]" by code_simp
  have b3: "low_bits 4 3 = [0, 0, 1, 1]" by code_simp
  have d: "dot [1, 1, 0, 0] [2, 3, 4, 5] = 5" "dot [1, 1, 0, 0] [3, 4, 5, 6] = 7"
    "dot [0, 0, 1, 1] [2, 3, 4, 5] = 9"
    by (simp_all add: dot_def lessThan_nat_numeral lessThan_Suc)
  have "fitness_func 12 ?ks = Inr (Profit 7)"
    using fitness_func_value [of ?ks 12] by (simp add: b12 d in_int64_def)
  moreover have "fitness_func 3 ?ks = Inr NINF"
    using fitness_func_value [of ?ks 3] by (simp add: b3 d in_int64_def)
  ultimately show ?thesis by simp
qed

text \<open>
  C2. For every width \<open>n \<ge> 1\<close> and every \<open>code\<close> in \<open>[0, 2^n - 1]\<close>,
  \<open>get_genome_sequence code n\<close> is the \<open>n\<close>-bit selection of \<open>code\<close>, and
  \<open>get_genome_value\<close> of that selection is \<open>code\<close> again.
\<close>

theorem codec_round_trip:
  assumes "1 \<le> n" and "0 \<le> code" and "code \<le> 2 ^ nat n - 1"
  shows "get_genome_sequence code n = Inr (low_bits (nat n) (nat code))
     \<and> get_genome_value (low_bits (nat n) (nat code)) = Inr code"
proof -
  have c: "code < 2 ^ nat n" using assms by simp
  then have c': "nat code < 2 ^ nat n" using assms by (simp add: nat_less_iff)
  have "low_bits (nat n) (nat code) \<noteq> []"
    using assms length_low_bits [of "nat n" "nat code"] by auto
  then have "get_genome_value (low_bits (nat n) (nat code)) = Inr (int (nat code))"
    using bin_value_low_bits [OF c'] by (simp add: get_genome_value_bits set_low_bits)
  with assms c show ?thesis by (simp add: get_genome_sequence_in_range)
qed

theorem codec_round_trip_witness:
  "get_genome_sequence 5 4 = Inr [0, 1, 0, 1] \<and> get_genome_value [0, 1, 0, 1] = Inr 5"
proof -
  have b: "low_bits 4 5 = [0, 1, 0, 1]" by code_simp
  show ?thesis using codec_round_trip [of 4 5] by (simp add: b)
qed

text \<open>
  C3, as stated, fails: with a width below the number of digits the sequence is not cut
  down to the width. \<open>get_genome_sequence 7 2\<close> is \<open>[1, 1, 1]\<close>, of length 3, while
  the two low-order bits of 7 are \<open>[1, 1]\<close>.
\<close>

theorem decode_short_width_counterexample:
  "(2::int) < int (length (bin_digits 7))
   \<and> get_genome_sequence 7 2 = Inr [1, 1, 1]
   \<and> get_genome_sequence 7 2 \<noteq> Inr (low_bits 2 7)"
  by code_simp

text \<open>
  C3, amended. For every \<open>code \<ge> 0\<close> and every width \<open>w \<ge> 0\<close> below the number
  \<open>d\<close> of binary digits of \<open>code\<close>, \<open>get_genome_sequence code w\<close> raises no error and
  returns all \<open>d\<close> digits of \<open>code\<close>, most significant first: a 0/1 sequence of length
  \<open>d\<close>, longer than \<open>w\<close>, whose value is \<open>code\<close>.
\<close>

theorem decode_short_width_keeps_digits:
  assumes "0 \<le> code" and "0 \<le> w" and "w < int (length (bin_digits (nat code)))"
  shows "get_genome_sequence code w
       = Inr (low_bits (length (bin_digits (nat code))) (nat code))
     \<and> set (low_bits (length (bin_digits (nat code))) (nat code)) \<subseteq> {0, 1}
     \<and> get_genome_value (low_bits (length (bin_digits (nat code))) (nat code)) = Inr code"
proof -
  let ?d = "length (bin_digits (nat code))"
  have d: "?d = length (bin_vals (nat code))" by (rule length_bin_digits)
  have eq: "low_bits ?d (nat code) = bin_vals (nat code)"
    unfolding d by (rule bin_vals_low_bits [symmetric])
  have "get_genome_sequence code w = Inr (bin_vals (nat code))"
    using assms by (intro get_genome_sequence_wide) (simp_all add: d)
  moreover have "get_genome_value (bin_vals (nat code)) = Inr code"
    using assms by (simp add: get_genome_value_bits bin_vals_nonempty set_bin_vals bin_value_bin_vals)
  ultimately show ?thesis by (simp add: eq set_bin_vals)
qed

theorem decode_short_width_keeps_digits_witness:
  "(2::int) < int (length (bin_digits (nat 7)))
   \<and> get_genome_sequence 7 2 = Inr [1, 1, 1]
   \<and> get_genome_value [1, 1, 1] = Inr 7"
proof -
  have l: "length (bin_digits 7) = 3" by code_simp
  have b: "low_bits 3 7 = [1, 1, 1]" by code_simp
  have h: "(2::int) < int (length (bin_digits (nat 7)))" by (simp add: l)
  from decode_short_width_keeps_digits [OF _ _ h] h show ?thesis by (simp add: l b)
qed

text \<open>
  C8, as stated, fails, for the same reason as C1: with two items of weight \<open>2^62\<close>
  and capacity 5, genome 3 is infeasible (its selection weighs \<open>2^63\<close>) and genome 0
  is feasible, but the fitness of genome 3 is the profit 2, which is not below the
  fitness 0 of genome 0.
\<close>

theorem infeasible_above_feasible_counterexample:
  "fitness_func 3
     \<lparr>n_items = 2, weights = [4611686018427387904, 4611686018427387904], vals = [1, 1],
      capacity = 5\<rparr> = Inr (Profit 2)
   \<and> fitness_func 0
     \<lparr>n_items = 2, weights = [4611686018427387904, 4611686018427387904], vals = [1, 1],
      capacity = 5\<rparr> = Inr (Profit 0)
   \<and> \<not> fit_less (Profit 2) (Profit 0)
   \<and> 5 < dot (low_bits 2 3) (map sint [4611686018427387904, 4611686018427387904 :: int64])
   \<and> dot (low_bits 2 0) (map sint [4611686018427387904, 4611686018427387904 :: int64]) \<le> 5"
proof -
  have b: "low_bits 2 3 = [1, 1]" "low_bits 2 0 = [0, 0]" by code_simp+
  have g: "get_genome_sequence 3 2 = Inr [1, 1]" "get_genome_sequence 0 2 = Inr [0, 0]"
    by code_simp+
  have "5 < dot [1, 1] (map sint [4611686018427387904, 4611686018427387904 :: int64])"
    "dot [0, 0] (map sint [4611686018427387904, 4611686018427387904 :: int64]) \<le> 5"
    by (simp_all add: dot_def lessThan_nat_numeral lessThan_Suc)
  moreover have "fitness_func 3
     \<lparr>n_items = 2, weights = [4611686018427387904, 4611686018427387904], vals = [1, 1],
      capacity = 5\<rparr> = Inr (Profit 2)"
    by (simp add: fitness_func_def g np_dot_def)
  moreover have "fitness_func 0
     \<lparr>n_items = 2, weights = [4611686018427387904, 4611686018427387904], vals = [1, 1],
      capacity = 5\<rparr> = Inr (Profit 0)"
    by (simp add: fitness_func_def g np_dot_def)
  ultimately show ?thesis by (simp add: b)
qed

text \<open>
  C8, amended. For a problem instance with \<open>n \<ge> 1\<close> items and vectors of length \<open>n\<close>,
  and genomes \<open>a\<close> and \<open>b\<close> in \<open>[0, 2^n - 1]\<close> whose selections have total weights in
  the range of \<open>int64\<close>: when the weight of the selection of \<open>a\<close> exceeds the capacity
  and the weight of the selection of \<open>b\<close> does not, both fitnesses are computed
  without error and the fitness of \<open>a\<close> is strictly less than the fitness of \<open>b\<close>.
\<close>

theorem infeasible_below_feasible:
  assumes "1 \<le> n_items ks"
    and "length (weights ks) = nat (n_items ks)"
    and "length (vals ks) = nat (n_items ks)"
    and "0 \<le> a" and "a \<le> 2 ^ nat (n_items ks) - 1"
    and "0 \<le> b" and "b \<le> 2 ^ nat (n_items ks) - 1"
    and "in_int64 (dot (low_bits (nat (n_items ks)) (nat a)) (map sint (weights ks)))"
    and "in_int64 (dot (low_bits (nat (n_items ks)) (nat b)) (map sint (weights ks)))"
    and "capacity ks < dot (low_bits (nat (n_items ks)) (nat a)) (map sint (weights ks))"
    and "dot (low_bits (nat (n_items ks)) (nat b)) (map sint (weights ks)) \<le> capacity ks"
  shows "\<exists>fa fb. fitness_func a ks = Inr fa \<and> fitness_func b ks = Inr fb \<and> fit_less fa fb"
proof -
  let ?n = "nat (n_items ks)"
  have a: "a < 2 ^ ?n" and b: "b < 2 ^ ?n" using assms by simp_all
  have "fitness_func a ks = Inr NINF"
    using assms a
    by (simp add: fitness_func_def get_genome_sequence_in_range np_dot_eq_dot length_low_bits)
  moreover have "\<exists>v. fitness_func b ks = Inr (Profit v)"
    using assms b
    by (simp add: fitness_func_def get_genome_sequence_in_range np_dot_eq_dot np_dot_wraps
        length_low_bits)
  ultimately show ?thesis by auto
qed

theorem infeasible_below_feasible_witness:
  "\<exists>fa fb.
     fitness_func 3 \<lparr>n_items = 4, weights = [2, 3, 4, 5], vals = [3, 4, 5, 6], capacity = 5\<rparr>
       = Inr fa
     \<and> fitness_func 12 \<lparr>n_items = 4, weights = [2, 3, 4, 5], vals = [3, 4, 5, 6], capacity = 5\<rparr>
       = Inr fb
     \<and> fit_less fa fb"
proof -
  let ?ks = "\<lparr>n_items = 4, weights = [2, 3, 4, 5], vals = [3, 4, 5, 6], capacity = 5\<rparr>"
  have b12: "low_bits 4 12 = [1, 1, 0, 0]" by code_simp
  have b3: "low_bits 4 3 = [0, 0, 1, 1]" by code_simp
  have d: "dot [1, 1, 0, 0] [2, 3, 4, 5] = 5" "dot [0, 0, 1, 1] [2, 3, 4, 5] = 9"
    by (simp_all add: dot_def lessThan_nat_numeral lessThan_Suc)
  show ?thesis
    using infeasible_below_feasible [of ?ks 3 12] by (simp add: b12 b3 d in_int64_def)
qed

text \<open>
  C10. For a problem instance with \<open>n \<ge> 1\<close> items, vectors of length \<open>n\<close> and a
  capacity that is not negative, the genome 0 is feasible: \<open>fitness_func 0\<close> raises no
  error and returns the profit 0, not \<open>NINF\<close>. The weights play no part: the empty
  selection weighs 0 whatever they are.
\<close>

theorem empty_selection_feasible:
  assumes "1 \<le> n_items ks"
    and "length (weights ks) = nat (n_items ks)"
    and "length (vals ks) = nat (n_items ks)"
    and "0 \<le> capacity ks"
  shows "fitness_func 0 ks = Inr (Profit 0)"
  using assms
  by (subst fitness_func_in_range) (simp_all add: low_bits_zero dot_zeros in_int64_0)

theorem empty_selection_feasible_witness:
  "fitness_func 0 \<lparr>n_items = 4, weights = [2, 3, 4, 5], vals = [3, 4, 5, 6], capacity = 5\<rparr>
     = Inr (Profit 0)"
  using empty_selection_feasible
    [of "\<lparr>n_items = 4, weights = [2, 3, 4, 5], vals = [3, 4, 5, 6], capacity = 5\<rparr>"]
  by simp

section \<open>Properties of the driver\<close>

subsection \<open>The order on fitness values and \<^verbatim>\<open>max\<close>\<close>

lemma fit_le_refl: "fit_le a a"
  by (cases a) (simp_all add: fit_le_def)

lemma fit_less_imp_le: "fit_less a b \<Longrightarrow> fit_le a b"
  by (cases a; cases b) (simp_all add: fit_le_def)

lemma fit_le_trans: "fit_le a b \<Longrightarrow> fit_le b c \<Longrightarrow> fit_le a c"
  by (cases a; cases b; cases c) (simp_all add: fit_le_def)

lemma max_by_defined:
  assumes "key maxitem = Inr maxval" and "\<forall>x\<in>set xs. \<exists>f. key x = Inr f"
  shows "\<exists>best fb. max_by key maxitem maxval xs = Inr best
           \<and> best \<in> insert maxitem (set xs) \<and> key best = Inr fb \<and> fit_le maxval fb
           \<and> (\<forall>x\<in>set xs. \<exists>f. key x = Inr f \<and> fit_le f fb)"
  using assms
proof (induction xs arbitrary: maxitem maxval)
  case Nil
  then show ?case by (simp add: fit_le_refl)
next
  case (Cons item rest)
  from Cons.prems obtain val where val: "key item = Inr val" by auto
  have rest: "\<forall>x\<in>set rest. \<exists>f. key x = Inr f" using Cons.prems by simp
  show ?case
  proof (cases "fit_less maxval val")
    case True
    from Cons.IH [OF val rest] obtain best fb where
      b: "max_by key item val rest = Inr best" "best \<in> insert item (set rest)"
        "key best = Inr fb" "fit_le val fb"
        "\<forall>x\<in>set rest. \<exists>f. key x = Inr f \<and> fit_le f fb"
      by blast
    have "fit_le maxval fb" using True b(4) fit_less_imp_le fit_le_trans by blast
    with True val b show ?thesis by auto
  next
    case False
    from Cons.IH [OF Cons.prems(1) rest] obtain best fb where
      b: "max_by key maxitem maxval rest = Inr best" "best \<in> insert maxitem (set rest)"
        "key best = Inr fb" "fit_le maxval fb"
        "\<forall>x\<in>set rest. \<exists>f. key x = Inr f \<and> fit_le f fb"
      by blast
    have "fit_le val maxval" using False by (simp add: fit_le_def)
    then have "fit_le val fb" using b(4) fit_le_trans by blast
    with False val b show ?thesis by auto
  qed
qed

lemma py_max_defined:
  assumes "xs \<noteq> []" and "\<forall>x\<in>set xs. \<exists>f. key x = Inr f"
  shows "\<exists>best fb. py_max key xs = Inr best \<and> best \<in> set xs \<and> key best = Inr fb
           \<and> (\<forall>x\<in>set xs. \<exists>f. key x = Inr f \<and> fit_le f fb)"
proof -
  from assms(1) obtain item rest where xs: "xs = item # rest" by (cases xs) auto
  from assms(2) xs obtain val where val: "key item = Inr val" by auto
  have rest: "\<forall>x\<in>set rest. \<exists>f. key x = Inr f" using assms(2) xs by simp
  from max_by_defined [OF val rest] obtain best fb where
    b: "max_by key item val rest = Inr best" "best \<in> insert item (set rest)"
      "key best = Inr fb" "fit_le val fb"
      "\<forall>x\<in>set rest. \<exists>f. key x = Inr f \<and> fit_le f fb"
    by blast
  with xs val show ?thesis by (auto simp: py_max_def)
qed

subsection \<open>\<^verbatim>\<open>np.unique\<close> and the guard\<close>

lemma sint_inj_on: "inj_on (sint :: int64 \<Rightarrow> int) A"
  by (rule inj_onI) (simp add: signed_word_eqI)

lemma sorted_np_unique: "sorted (map sint (np_unique xs))"
  by (simp add: np_unique_def sorted_sort_key)

lemma distinct_np_unique: "distinct (map sint (np_unique xs))"
  by (simp add: np_unique_def distinct_map sint_inj_on)

lemma set_np_unique: "set (np_unique xs) = set xs"
  by (simp add: np_unique_def)

lemma length_np_unique: "length (np_unique xs) \<le> length xs"
  by (simp add: np_unique_def length_remdups_leq)

lemma np_unique_cong: "set xs = set ys \<Longrightarrow> np_unique xs = np_unique ys"
proof -
  assume e: "set xs = set ys"
  have "map sint (np_unique xs) = map sint (np_unique ys)"
    by (intro sorted_distinct_set_unique)
       (simp_all add: sorted_np_unique distinct_np_unique set_np_unique e)
  then show ?thesis by (rule map_inj_on) (rule sint_inj_on)
qed

lemma np_unique_concat_perm:
  "mset outs = mset outs' \<Longrightarrow> np_unique (concat outs) = np_unique (concat outs')"
proof (rule np_unique_cong)
  assume "mset outs = mset outs'"
  then have "set outs = set outs'" by (rule mset_eq_setD)
  then show "set (concat outs) = set (concat outs')" by simp
qed

lemma float_le_one_exact: "sp * of_nat n \<le> 1 \<Longrightarrow> float_le_one sp n"
proof -
  assume "sp * of_nat n \<le> 1"
  moreover have "(1::rat) \<le> 1 + 1 / 2 ^ 53" by simp
  ultimately show ?thesis unfolding float_le_one_def by (rule order_trans)
qed

lemma float_le_one_nonpos: "sp \<le> 0 \<Longrightarrow> float_le_one sp n"
  by (rule float_le_one_exact) (simp add: mult_nonpos_nonneg order_trans [of _ 0 1])

subsection \<open>The loop of one cycle\<close>

lemma evolving_guard:
  assumes "1 < length P" and "float_le_one sp (length P)"
  shows "evolving ga sp k P s =
     (case py_max (ga_fitness_func ga) P of
        Inl e \<Rightarrow> Some (Inl e)
      | Inr best \<Rightarrow> Some (Inr ([best], s)))"
  using assms by (subst evolving.simps) simp

lemma evolving_small: "length P \<le> 1 \<Longrightarrow> evolving ga sp k P s = Some (Inr (P, s))"
  by (subst evolving.simps) simp

lemma evolving_step:
  assumes "1 < length P" and "\<not> float_le_one sp (length P)"
  shows "evolving ga sp k P s =
     evolving ga sp k (fst (generation ga sp k P s)) (snd (generation ga sp k P s))"
  using assms by (subst evolving.simps) (simp add: case_prod_beta)

lemma driver_of_cycles:
  "cycles ga sp k (nat (ga_cycle ga)) [] s = Some (Inr (winners, s')) \<Longrightarrow>
   driver ga sp k s =
     (case py_max (ga_fitness_func ga) winners of
        Inl e \<Rightarrow> Some (Inl e)
      | Inr best \<Rightarrow> Some (Inr (best, s')))"
  by (simp add: driver_def)

subsection \<open>The operators after the specification, evaluated\<close>

lemma fitness_ks4:
  "fitness_func 0 ks4 = Inr (Profit 0)" "fitness_func 1 ks4 = Inr (Profit 6)"
  "fitness_func 3 ks4 = Inr NINF" "fitness_func 4 ks4 = Inr (Profit 4)"
  "fitness_func 5 ks4 = Inr NINF" "fitness_func 12 ks4 = Inr (Profit 7)"
  by code_simp+

lemma low_bits_4:
  "low_bits 4 0 = [0, 0, 0, 0]" "low_bits 4 (Suc 0) = [0, 0, 0, 1]"
  "low_bits 4 3 = [0, 0, 1, 1]" "low_bits 4 4 = [0, 1, 0, 0]" "low_bits 4 5 = [0, 1, 0, 1]"
  "low_bits 4 8 = [1, 0, 0, 0]" "low_bits 4 12 = [1, 1, 0, 0]"
  by code_simp+

lemma spec_fitness_ks4:
  "spec_fitness ks4 0 = Profit 0" "spec_fitness ks4 1 = Profit 6"
  "spec_fitness ks4 3 = NINF" "spec_fitness ks4 4 = Profit 4"
  "spec_fitness ks4 5 = NINF" "spec_fitness ks4 8 = Profit 3"
  "spec_fitness ks4 12 = Profit 7"
  by (simp_all add: spec_fitness_def ks4_def low_bits_4 dot_def lessThan_nat_numeral
      lessThan_Suc)

lemma spec_ga_simps:
  "ga_cycle (spec_ga c ks) = c"
  "ga_fitness_func (spec_ga c ks) = (\<lambda>g. fitness_func g ks)"
  "init_population (spec_ga c ks) s = (fst (scripted_population (fst s)),
     (snd (scripted_population (fst s)), snd s @ [InitPopulation]))"
  "selection (spec_ga c ks) P sp s =
     (spec_selection (spec_fitness ks) P sp, (fst s, snd s @ [Selection]))"
  "crossover_mutation (spec_ga c ks) P s =
     (map word_of_int P, (fst s, snd s @ [Crossover, Mutation]))"
  by (simp_all add: spec_ga_def init_population_def selection_def crossover_mutation_def
      crossover_def mutation_def spec_crossover_def spec_mutation_def case_prod_beta)

lemma generation_spec_ga_one_island:
  "fst (generation (spec_ga c ks) sp 1 P s)
     = map sint (np_unique (map word_of_int (spec_selection (spec_fitness ks) P sp)))"
  by (simp add: generation_def spec_ga_simps case_prod_beta)

lemma generation_stall: "fst (generation (spec_ga 1 ks4) 1 1 [0, 1] s) = [0, 1]"
  by (simp add: generation_spec_ga_one_island spec_selection_def ranked_def spec_fitness_ks4
      np_unique_def)

lemma length_insert_ranked: "length (insert_ranked rank g hs) = Suc (length hs)"
  by (induction hs) simp_all

lemma length_ranked_acc:
  "length (foldl (\<lambda>acc g. insert_ranked rank g acc) acc P) = length acc + length P"
  by (induction P arbitrary: acc) (simp_all add: length_insert_ranked)

lemma length_spec_selection:
  "length (spec_selection rank P p) = min (length P) (max 1 (nat \<lceil>p * of_nat (length P)\<rceil>))"
  by (simp add: spec_selection_def ranked_def length_ranked_acc min.commute)

lemma half_shrinks:
  assumes "1 < length P"
  shows "length (fst (generation (spec_ga c ks) (1 / 2) 1 P s)) < length P"
proof -
  let ?sel = "spec_selection (spec_fitness ks) P (1 / 2)"
  have "\<lceil>(1 / 2 :: rat) * of_nat (length P)\<rceil> \<le> int (length P) - 1"
    using assms by (intro ceiling_le) simp
  then have "max 1 (nat \<lceil>(1 / 2 :: rat) * of_nat (length P)\<rceil>) < length P"
    using assms by simp
  then have "length ?sel < length P"
    by (simp add: length_spec_selection)
  moreover have "length (np_unique (map word_of_int ?sel)) \<le> length ?sel"
    using length_np_unique [of "map word_of_int ?sel"] by simp
  ultimately show ?thesis by (simp add: generation_spec_ga_one_island)
qed

lemma cycles_two_singletons:
  "cycles (spec_ga 2 ks4) (1 / 2) 5 (nat (ga_cycle (spec_ga 2 ks4))) [] ([[3], [12]], [])
     = Some (Inr ([3, 12], ([], [InitPopulation, InitPopulation])))"
  by (simp add: spec_ga_simps numeral_2_eq_2 run_cycle_def scripted_population_def
      evolving_small cycle_done_def)

subsection \<open>Claims about the driver\<close>

text \<open>
  C4, as stated, fails: the driver does not check its configuration. A selection fraction
  of 0 lies outside \<open>(0, 1]\<close>, yet the driver surfaces no error: the cycle ends at the
  degenerate guard and the driver returns the winner 12.
\<close>

theorem driver_accepts_bad_fraction_counterexample:
  "\<not> (0 < (0::rat) \<and> (0::rat) \<le> 1)
   \<and> driver (spec_ga 1 ks4) 0 5 ([[3, 12]], []) = Some (Inr (12, ([], [InitPopulation])))"
proof -
  have m: "py_max (\<lambda>g. fitness_func g ks4) [3, 12] = Inr 12"
    by (simp add: py_max_def fitness_ks4)
  have e: "evolving (spec_ga 1 ks4) 0 5 [3, 12] s = Some (Inr ([12], s))" for s
    by (subst evolving_guard) (simp_all add: spec_ga_simps m float_le_one_nonpos)
  have c: "cycles (spec_ga 1 ks4) 0 5 (nat (ga_cycle (spec_ga 1 ks4))) [] ([[3, 12]], [])
      = Some (Inr ([12], ([], [InitPopulation])))"
    by (simp add: spec_ga_simps run_cycle_def scripted_population_def e cycle_done_def)
  have "driver (spec_ga 1 ks4) 0 5 ([[3, 12]], [])
      = Some (Inr (12, ([], [InitPopulation])))"
    by (subst driver_of_cycles [OF c]) (simp add: spec_ga_simps py_max_def fitness_ks4)
  then show ?thesis by simp
qed

text \<open>
  C4, amended. The driver does not validate its configuration and does not look at the
  genome width. A cycle count below 1 makes it raise \<^verbatim>\<open>ValueError\<close> (the maximum of
  no winners) without any operator having been invoked. A selection fraction of 0 or less
  is not reported: a population of more than one genome ends its cycle at the degenerate
  guard, with \<^verbatim>\<open>max\<close> over the population as the outcome. An island parallelism below
  1 is reported only after selection has run: a generation that passes the guard leaves
  an empty population, and the cycle raises \<^verbatim>\<open>IndexError\<close>.
\<close>

theorem driver_does_not_validate:
  "(ga_cycle ga < 1 \<longrightarrow>
      cycles ga sp k (nat (ga_cycle ga)) [] s = Some (Inr ([], s))
      \<and> driver ga sp k s = Some (Inl ValueError))
   \<and> (sp0 \<le> 0 \<longrightarrow> 1 < length P \<longrightarrow>
      evolving ga sp0 k P s =
        (case py_max (ga_fitness_func ga) P of
           Inl e \<Rightarrow> Some (Inl e)
         | Inr best \<Rightarrow> Some (Inr ([best], s))))
   \<and> (k0 < 1 \<longrightarrow> 1 < length P \<longrightarrow> \<not> float_le_one sp (length P) \<longrightarrow>
      evolving ga sp k0 P s = Some (Inr ([], snd (selection ga P sp s)))
      \<and> cycle_done (evolving ga sp k0 P s) = Some (Inl IndexError))"
proof (intro conjI impI)
  assume "ga_cycle ga < 1"
  then show c: "cycles ga sp k (nat (ga_cycle ga)) [] s = Some (Inr ([], s))" by simp
  show "driver ga sp k s = Some (Inl ValueError)"
    by (subst driver_of_cycles [OF c]) (simp add: py_max_def)
next
  assume "sp0 \<le> 0" and P: "1 < length P"
  then have "float_le_one sp0 (length P)" by (simp add: float_le_one_nonpos)
  from evolving_guard [OF P this]
  show "evolving ga sp0 k P s =
        (case py_max (ga_fitness_func ga) P of
           Inl e \<Rightarrow> Some (Inl e)
         | Inr best \<Rightarrow> Some (Inr ([best], s)))" .
next
  assume k0: "k0 < 1" and P: "1 < length P" and g: "\<not> float_le_one sp (length P)"
  from k0 have gen: "generation ga sp k0 P s = ([], snd (selection ga P sp s))"
    by (simp add: generation_def case_prod_beta np_unique_def)
  show e: "evolving ga sp k0 P s = Some (Inr ([], snd (selection ga P sp s)))"
    by (subst evolving_step [OF P g]) (simp add: gen evolving_small)
  show "cycle_done (evolving ga sp k0 P s) = Some (Inl IndexError)"
    by (simp add: e cycle_done_def)
qed

theorem driver_does_not_validate_witness:
  "driver (spec_ga 0 ks4) 1 5 ([], []) = Some (Inl ValueError)
   \<and> evolving (spec_ga 0 ks4) 0 5 [3, 12, 5] ([], []) = Some (Inr ([12], ([], [])))
   \<and> evolving (spec_ga 0 ks4) 1 0 [3, 12, 5] ([], []) = Some (Inr ([], ([], [Selection])))
   \<and> cycle_done (evolving (spec_ga 0 ks4) 1 0 [3, 12, 5] ([], [])) = Some (Inl IndexError)"
proof -
  have m: "py_max (\<lambda>g. fitness_func g ks4) [3, 12, 5] = Inr 12"
    by (simp add: py_max_def fitness_ks4)
  have g: "\<not> float_le_one 1 (length [3, 12, 5 :: int])"
    by (simp add: float_le_one_def)
  from driver_does_not_validate
    [of "spec_ga 0 ks4" 1 5 "([], [])" 0 "[3, 12, 5]" 0]
  show ?thesis using g by (simp add: spec_ga_simps m cycle_done_def)
qed



text \<open>
  C6. The population that the merge step of a generation produces is in ascending order
  and holds no value twice, and its values are exactly the values that occur in the
  outputs of the \<open>k_parallel\<close> islands: each of them appears exactly once.
\<close>

theorem merge_sorted_distinct:
  "sorted (fst (generation ga sp k P s))
   \<and> distinct (fst (generation ga sp k P s))
   \<and> set (fst (generation ga sp k P s))
      = sint ` \<Union> (set ` set (fst (islands ga (nat k) (fst (selection ga P sp s))
                                            (snd (selection ga P sp s)))))"
  by (simp add: generation_def case_prod_beta sorted_np_unique distinct_np_unique set_np_unique)

text \<open>
  C7. When the cycles have recorded the winners \<open>winners\<close>, at least one, and the
  fitness of each is defined, the driver returns a genome \<open>best\<close> of \<open>winners\<close> whose
  fitness is at least the fitness of every recorded winner.
\<close>

theorem driver_returns_best_winner:
  assumes "cycles ga sp k (nat (ga_cycle ga)) [] s = Some (Inr (winners, s'))"
    and "winners \<noteq> []"
    and "\<forall>w\<in>set winners. \<exists>f. ga_fitness_func ga w = Inr f"
  shows "\<exists>best fb. driver ga sp k s = Some (Inr (best, s'))
           \<and> best \<in> set winners \<and> ga_fitness_func ga best = Inr fb
           \<and> (\<forall>w\<in>set winners. \<exists>f. ga_fitness_func ga w = Inr f \<and> fit_le f fb)"
proof -
  from py_max_defined [OF assms(2,3)] obtain best fb where
    b: "py_max (ga_fitness_func ga) winners = Inr best" "best \<in> set winners"
      "ga_fitness_func ga best = Inr fb"
      "\<forall>w\<in>set winners. \<exists>f. ga_fitness_func ga w = Inr f \<and> fit_le f fb"
    by blast
  have "driver ga sp k s = Some (Inr (best, s'))"
    by (subst driver_of_cycles [OF assms(1)]) (simp add: b(1))
  with b show ?thesis by blast
qed

theorem driver_returns_best_winner_witness:
  "driver (spec_ga 2 ks4) (1 / 2) 5 ([[3], [12]], [])
     = Some (Inr (12, ([], [InitPopulation, InitPopulation])))"
proof -
  have h: "\<forall>w\<in>set [3, 12]. \<exists>f. ga_fitness_func (spec_ga 2 ks4) w = Inr f"
    by (simp add: spec_ga_simps fitness_ks4)
  from driver_returns_best_winner [OF cycles_two_singletons _ h]
  obtain best fb where
    d: "driver (spec_ga 2 ks4) (1 / 2) 5 ([[3], [12]], [])
          = Some (Inr (best, ([], [InitPopulation, InitPopulation])))"
    and m: "best \<in> set [3, 12]" and fb: "ga_fitness_func (spec_ga 2 ks4) best = Inr fb"
    and le: "\<forall>w\<in>set [3, 12]. \<exists>f. ga_fitness_func (spec_ga 2 ks4) w = Inr f \<and> fit_le f fb"
    by auto
  have "best = 12"
  proof (rule ccontr)
    assume "best \<noteq> 12"
    with m have "best = 3" by simp
    with fb have "fb = NINF" by (simp add: spec_ga_simps fitness_ks4)
    with le show False by (simp add: spec_ga_simps fitness_ks4 fit_le_def)
  qed
  with d show ?thesis by simp
qed

text \<open>
  C9, as stated, fails on the operators written after the specification: with the valid
  configuration of selection fraction 1 and one island, selection retains the whole
  population, crossover returns every survivor and mutation flips no bit, so the
  population \<open>[0, 1]\<close> comes back unchanged from every generation and the loop never ends.
\<close>

theorem evolving_runs_forever_counterexample:
  "(0::rat) < 1 \<and> (1::rat) \<le> 1 \<and> (1::int) \<le> 1
   \<and> evolving (spec_ga 1 ks4) 1 1 [0, 1] ([], []) = None"
proof -
  have stall: "ga = spec_ga 1 ks4 \<and> sp = 1 \<and> k = 1 \<and> P = [0, 1] \<longrightarrow> False"
    if run: "evolving ga sp k P s = Some y" for ga sp k P s y
  proof (rule evolving.raw_induct
      [where P = "\<lambda>ga sp k P s y. ga = spec_ga 1 ks4 \<and> sp = 1 \<and> k = 1 \<and> P = [0, 1] \<longrightarrow> False",
       OF _ run], goal_cases)
    case (1 ev ga sp k P s y)
    show ?case
    proof
      assume a: "ga = spec_ga 1 ks4 \<and> sp = 1 \<and> k = 1 \<and> P = [0, 1]"
      have fl: "\<not> float_le_one 1 (length [0, 1 :: int])"
        by (simp add: float_le_one_def)
      obtain merged s' where g: "generation (spec_ga 1 ks4) 1 1 [0, 1] s = (merged, s')"
        by (cases "generation (spec_ga 1 ks4) 1 1 [0, 1] s")
      then have m: "merged = [0, 1]" using generation_stall [of s] by simp
      from 1(2) a g fl have "ev (spec_ga 1 ks4) 1 1 merged s' = Some y" by simp
      from 1(1) [OF this] m show False by simp
    qed
  qed
  have "evolving (spec_ga 1 ks4) 1 1 [0, 1] ([], []) = None"
  proof (cases "evolving (spec_ga 1 ks4) 1 1 [0, 1] ([], [])")
    case None
    then show ?thesis .
  next
    case (Some y)
    from stall [OF this] show ?thesis by simp
  qed
  then show ?thesis by simp
qed

text \<open>
  C9, amended. When every generation that the guard lets through returns a merged
  population with fewer genomes than the population it started from, the loop of a
  cycle ends from every population: it yields a population of at most one genome, or
  the error of the fitness function raised at the guard.
\<close>

theorem evolving_terminates_when_shrinking:
  assumes "\<And>P s. 1 < length P \<Longrightarrow> \<not> float_le_one sp (length P)
             \<Longrightarrow> length (fst (generation ga sp k P s)) < length P"
  shows "\<exists>res. evolving ga sp k population s = Some res
           \<and> (case res of Inl e \<Rightarrow> True | Inr (final, s') \<Rightarrow> length final \<le> 1)"
proof (induction "length population" arbitrary: population s rule: less_induct)
  case less
  show ?case
  proof (cases "1 < length population")
    case False
    then show ?thesis by (simp add: evolving_small)
  next
    case True
    show ?thesis
    proof (cases "float_le_one sp (length population)")
      case guard: True
      show ?thesis
        by (subst evolving_guard [OF True guard])
           (simp split: sum.splits)
    next
      case False
      from assms [OF True False]
      have "length (fst (generation ga sp k population s)) < length population" .
      from less [OF this] show ?thesis
        by (subst evolving_step [OF True False])
    qed
  qed
qed

theorem evolving_terminates_when_shrinking_witness:
  "\<exists>res. evolving (spec_ga 1 ks4) (1 / 2) 1 [0, 1, 4, 12, 8] ([], []) = Some res
     \<and> (case res of Inl e \<Rightarrow> True | Inr (final, s') \<Rightarrow> length final \<le> 1)"
  by (rule evolving_terminates_when_shrinking) (rule half_shrinks)

end
